theory Spec2Isabelle
  imports Complex_Main "HOL-Library.Char_ord" "HOL-Library.List_Lexorder" "HOL-Library.Sublist"
begin

section \<open>Python values\<close>

text \<open>
  The handler in \<^verbatim>\<open>src/app/routes.py\<close> works on the payload that Flask has parsed from
  JSON: a dict from strings to JSON values, here an association list read with \<open>map_of\<close>.
  A Python float is modelled by its value: every finite double is a rational number, and
  there are the two infinities and NaN. The sign of zero is not kept: the program only
  compares and adds amounts. A string is a list of bytes, whose lexicographic order is the
  order of Python's strings (UTF-8 keeps the order of the code points).
\<close>

datatype pyfloat = Fin rat | PInf | NInf | NaN

datatype json =
    JNull
  | JBool bool
  | JInt int
  | JFloat pyfloat
  | JStr string
  | JArr "json list"
  | JObj "(string \<times> json) list"

type_synonym pydict = "(string \<times> json) list"

text \<open>The exceptions a run of the handler can raise.\<close>

datatype py_exn = TypeError | ValueError | OverflowError | KeyError | IndexError

text \<open>
  Python's \<^verbatim>\<open><\<close> and \<^verbatim>\<open><=\<close> on floats: every comparison with NaN is false.
\<close>

fun float_less :: "pyfloat \<Rightarrow> pyfloat \<Rightarrow> bool" where
  "float_less (Fin a) (Fin b) = (a < b)"
| "float_less (Fin a) PInf = True"
| "float_less NInf (Fin b) = True"
| "float_less NInf PInf = True"
| "float_less _ _ = False"

fun float_le :: "pyfloat \<Rightarrow> pyfloat \<Rightarrow> bool" where
  "float_le (Fin a) (Fin b) = (a \<le> b)"
| "float_le (Fin a) PInf = True"
| "float_le NInf (Fin b) = True"
| "float_le NInf PInf = True"
| "float_le PInf PInf = True"
| "float_le NInf NInf = True"
| "float_le _ _ = False"

text \<open>
  The operations that round are taken as parameters, so that nothing proved below depends
  on how the interpreter rounds: \<open>int_to_float n\<close> is \<^verbatim>\<open>float(n)\<close> for an int (\<open>None\<close> is
  OverflowError), \<open>str_to_float s\<close> is \<^verbatim>\<open>float(s)\<close> for a str (\<open>None\<close> is ValueError), and
  \<open>float_add x y\<close> is \<^verbatim>\<open>x + y\<close> on two floats.
\<close>

record float_impl =
  int_to_float :: "int \<Rightarrow> pyfloat option"
  str_to_float :: "string \<Rightarrow> pyfloat option"
  float_add :: "pyfloat \<Rightarrow> pyfloat \<Rightarrow> pyfloat"

text \<open>\<^verbatim>\<open>float(v)\<close>: bool is a subclass of int; None, lists and dicts raise TypeError.\<close>

fun py_float :: "float_impl \<Rightarrow> json \<Rightarrow> py_exn + pyfloat" where
  "py_float fl (JBool b) = Inr (Fin (of_bool b))"
| "py_float fl (JInt n) =
     (case int_to_float fl n of None \<Rightarrow> Inl OverflowError | Some f \<Rightarrow> Inr f)"
| "py_float fl (JFloat f) = Inr f"
| "py_float fl (JStr s) =
     (case str_to_float fl s of None \<Rightarrow> Inl ValueError | Some f \<Rightarrow> Inr f)"
| "py_float fl _ = Inl TypeError"

text \<open>
  \<^verbatim>\<open>sum(...)\<close> adds the values one after the other, from left to right, starting from the
  int 0, which adds and compares like the float 0. This is the summation of CPython up to
  3.11; later versions also carry a compensation for the rounding errors of the
  additions, which changes nothing when no addition rounds.
\<close>

definition py_sum :: "float_impl \<Rightarrow> pyfloat list \<Rightarrow> pyfloat" where
  "py_sum fl fs = foldl (float_add fl) (Fin 0) fs"

text \<open>
  \<open>int_value v\<close> is the integer of a value for which \<^verbatim>\<open>isinstance(v, int)\<close> holds (True is
  1, False is 0, also as a dict key); \<open>num_value v\<close> is the exact value of a number, which is
  what Python compares when an int meets a float.
\<close>

fun int_value :: "json \<Rightarrow> int option" where
  "int_value (JInt n) = Some n"
| "int_value (JBool b) = Some (of_bool b)"
| "int_value _ = None"

definition isinstance_int :: "json \<Rightarrow> bool" where
  "isinstance_int v = (int_value v \<noteq> None)"

fun num_value :: "json \<Rightarrow> pyfloat option" where
  "num_value (JInt n) = Some (Fin (of_int n))"
| "num_value (JBool b) = Some (Fin (of_bool b))"
| "num_value (JFloat f) = Some f"
| "num_value _ = None"

text \<open>
  \<^verbatim>\<open>a > b\<close> and \<^verbatim>\<open>a <= b\<close>: numbers by value, strings lexicographically by code point, and
  TypeError for a number against a string, for None and for dicts. Two lists are given
  TypeError as well, where Python compares them element by element; and \<^verbatim>\<open>a - b\<close> is
  given for ints only, where Python subtracts floats too. Neither case arises in a run:
  the operands are stored amounts and times, and the validation has passed a stored amount
  through \<^verbatim>\<open>float\<close> and a stored time through \<^verbatim>\<open>isinstance(_, int)\<close>
  (lemma \<open>reachable_stored_valid\<close>).
\<close>

definition py_gt :: "json \<Rightarrow> json \<Rightarrow> py_exn + bool" where
  "py_gt a b =
     (case (num_value a, num_value b) of
        (Some x, Some y) \<Rightarrow> Inr (float_less y x)
      | _ \<Rightarrow> (case (a, b) of (JStr s, JStr t) \<Rightarrow> Inr (t < s) | _ \<Rightarrow> Inl TypeError))"

definition py_le :: "json \<Rightarrow> json \<Rightarrow> py_exn + bool" where
  "py_le a b =
     (case (num_value a, num_value b) of
        (Some x, Some y) \<Rightarrow> Inr (float_le x y)
      | _ \<Rightarrow> (case (a, b) of (JStr s, JStr t) \<Rightarrow> Inr (s \<le> t) | _ \<Rightarrow> Inl TypeError))"

definition py_sub :: "json \<Rightarrow> json \<Rightarrow> py_exn + json" where
  "py_sub a b =
     (case (int_value a, int_value b) of
        (Some x, Some y) \<Rightarrow> Inr (JInt (x - y))
      | _ \<Rightarrow> Inl TypeError)"

text \<open>\<^verbatim>\<open>d[k]\<close> on a dict, and the sequencing of computations that may raise.\<close>

definition getitem :: "pydict \<Rightarrow> string \<Rightarrow> py_exn + json" where
  "getitem d k = (case map_of d k of None \<Rightarrow> Inl KeyError | Some v \<Rightarrow> Inr v)"

definition and_then :: "py_exn + 'a \<Rightarrow> ('a \<Rightarrow> py_exn + 'b) \<Rightarrow> py_exn + 'b" where
  "and_then x f = (case x of Inl e \<Rightarrow> Inl e | Inr v \<Rightarrow> f v)"

text \<open>
  A list comprehension with a condition, a generator under \<^verbatim>\<open>all\<close> and a generator of
  converted values: the elements are visited in order and the first exception ends the
  loop; \<^verbatim>\<open>all\<close> stops at the first false element.
\<close>

fun filter_exn :: "('a \<Rightarrow> py_exn + bool) \<Rightarrow> 'a list \<Rightarrow> py_exn + 'a list" where
  "filter_exn p [] = Inr []"
| "filter_exn p (x # xs) =
     (case p x of
        Inl e \<Rightarrow> Inl e
      | Inr b \<Rightarrow>
          (case filter_exn p xs of
             Inl e \<Rightarrow> Inl e
           | Inr ys \<Rightarrow> Inr (if b then x # ys else ys)))"

fun all_exn :: "('a \<Rightarrow> py_exn + bool) \<Rightarrow> 'a list \<Rightarrow> py_exn + bool" where
  "all_exn p [] = Inr True"
| "all_exn p (x # xs) =
     (case p x of
        Inl e \<Rightarrow> Inl e
      | Inr b \<Rightarrow> if b then all_exn p xs else Inr False)"

fun map_exn :: "('a \<Rightarrow> py_exn + 'b) \<Rightarrow> 'a list \<Rightarrow> py_exn + 'b list" where
  "map_exn f [] = Inr []"
| "map_exn f (x # xs) =
     (case f x of
        Inl e \<Rightarrow> Inl e
      | Inr y \<Rightarrow>
          (case map_exn f xs of
             Inl e \<Rightarrow> Inl e
           | Inr ys \<Rightarrow> Inr (y # ys)))"

section \<open>The validation of a payload\<close>

text \<open>
  \<^verbatim>\<open>user_actions\<close> is the module's dict from a user id to the list of the payloads
  accepted for that user, oldest first.
\<close>

type_synonym user_actions = "int \<Rightarrow> pydict list option"

text \<open>
  \<^verbatim>\<open>validate_payload\<close> returns \<^verbatim>\<open>(False, message)\<close> or \<^verbatim>\<open>(True, None)\<close>. The model returns
  \<open>Inr (Some e)\<close> for the former, with \<open>error_message e\<close> the message, \<open>Inr None\<close> for the
  latter, and \<open>Inl x\<close> when the call raises \<open>x\<close>.
\<close>

datatype validation_error =
    MissingField string
  | InvalidKind
  | NegativeAmount
  | InvalidAmount
  | InvalidUserId
  | InvalidTime
  | NonSequentialTime

fun error_message :: "validation_error \<Rightarrow> string" where
  "error_message (MissingField f) = ''Missing field: '' @ f"
| "error_message InvalidKind = ''Invalid action type. Must be 'deposit' or 'withdraw'.''"
| "error_message NegativeAmount = ''Amount cannot be negative.''"
| "error_message InvalidAmount = ''Invalid amount. Must be a valid number.''"
| "error_message InvalidUserId = ''Invalid user_id. Must be an integer.''"
| "error_message InvalidTime = ''Invalid time. Must be an integer.''"
| "error_message NonSequentialTime = ''Time must be sequential and increasing.''"

definition required_fields :: "string list" where
  "required_fields = [''type'', ''amount'', ''user_id'', ''time'']"

text \<open>
  The \<^verbatim>\<open>try\<close> block: only ValueError is caught, so the TypeError and the OverflowError
  of \<^verbatim>\<open>float\<close> leave the function.
\<close>

definition check_amount :: "float_impl \<Rightarrow> json \<Rightarrow> py_exn + validation_error option" where
  "check_amount fl a =
     (case py_float fl a of
        Inl ValueError \<Rightarrow> Inr (Some InvalidAmount)
      | Inl e \<Rightarrow> Inl e
      | Inr amount \<Rightarrow>
          if float_less amount (Fin 0) then Inr (Some NegativeAmount) else Inr None)"

text \<open>
  The last check: \<^verbatim>\<open>user_actions[user_id][-1]\<close> raises IndexError on an empty list. The
  branch for a user id without integer value is there for totality: the caller has
  checked \<^verbatim>\<open>isinstance(user_id, int)\<close>.
\<close>

definition check_sequential :: "user_actions \<Rightarrow> json \<Rightarrow> json \<Rightarrow> py_exn + validation_error option" where
  "check_sequential ua uid t =
     (case int_value uid of
        None \<Rightarrow> Inl TypeError
      | Some k \<Rightarrow>
          (case ua k of
             None \<Rightarrow> Inr None
           | Some hist \<Rightarrow>
               if hist = [] then Inl IndexError
               else
                 and_then (getitem (last hist) ''time'') (\<lambda>last_time.
                 and_then (py_le t last_time) (\<lambda>b.
                   Inr (if b then Some NonSequentialTime else None)))))"

definition validate_payload :: "float_impl \<Rightarrow> user_actions \<Rightarrow> pydict \<Rightarrow> py_exn + validation_error option" where
  "validate_payload fl ua data =
     (case find (\<lambda>field. map_of data field = None) required_fields of
        Some field \<Rightarrow> Inr (Some (MissingField field))
      | None \<Rightarrow>
          and_then (getitem data ''type'') (\<lambda>ty.
          if ty \<noteq> JStr ''deposit'' \<and> ty \<noteq> JStr ''withdraw'' then Inr (Some InvalidKind)
          else
            and_then (getitem data ''amount'') (\<lambda>a.
            and_then (check_amount fl a) (\<lambda>r.
            case r of
              Some e \<Rightarrow> Inr (Some e)
            | None \<Rightarrow>
                and_then (getitem data ''user_id'') (\<lambda>uid.
                if \<not> isinstance_int uid then Inr (Some InvalidUserId)
                else
                  and_then (getitem data ''time'') (\<lambda>t.
                  if \<not> isinstance_int t then Inr (Some InvalidTime)
                  else check_sequential ua uid t))))))"

section \<open>The four rules and the handler\<close>

text \<open>Code 1100: the payload is a withdrawal and \<^verbatim>\<open>float(data['amount']) > 100\<close>.\<close>

definition rule_1100 :: "float_impl \<Rightarrow> pydict \<Rightarrow> py_exn + bool" where
  "rule_1100 fl data =
     and_then (getitem data ''type'') (\<lambda>ty.
     if ty = JStr ''withdraw'' then
       and_then (getitem data ''amount'') (\<lambda>a.
       and_then (py_float fl a) (\<lambda>f. Inr (float_less (Fin 100) f)))
     else Inr False)"

text \<open>Code 30: the list has three entries or more and the last three are withdrawals.\<close>

definition is_type :: "string \<Rightarrow> pydict \<Rightarrow> py_exn + bool" where
  "is_type name action = and_then (getitem action ''type'') (\<lambda>ty. Inr (ty = JStr name))"

definition rule_30 :: "pydict list \<Rightarrow> py_exn + bool" where
  "rule_30 hist =
     (if 3 \<le> length hist then all_exn (is_type ''withdraw'') (drop (length hist - 3) hist)
      else Inr False)"

text \<open>
  Code 300: the stored amounts of the last three deposits are compared as they are, with
  the chained \<^verbatim>\<open>deposits[-1]['amount'] > deposits[-2]['amount'] > deposits[-3]['amount']\<close>,
  whose second comparison is made only when the first holds.
\<close>

definition rule_300 :: "pydict list \<Rightarrow> py_exn + bool" where
  "rule_300 hist =
     and_then (filter_exn (is_type ''deposit'') hist) (\<lambda>deposits.
     let n = length deposits in
     if 3 \<le> n then
       and_then (getitem (deposits ! (n - 1)) ''amount'') (\<lambda>a1.
       and_then (getitem (deposits ! (n - 2)) ''amount'') (\<lambda>a2.
       and_then (py_gt a1 a2) (\<lambda>c.
         if c then and_then (getitem (deposits ! (n - 3)) ''amount'') (\<lambda>a3. py_gt a2 a3)
         else Inr False)))
     else Inr False)"

text \<open>
  Code 123: the deposits with \<^verbatim>\<open>current_time - action['time'] <= 30\<close> (the subtraction is
  made for deposits only), their amounts converted by \<^verbatim>\<open>float\<close> and summed.
\<close>

definition is_recent_deposit :: "json \<Rightarrow> pydict \<Rightarrow> py_exn + bool" where
  "is_recent_deposit current_time action =
     and_then (getitem action ''type'') (\<lambda>ty.
     if ty = JStr ''deposit'' then
       and_then (getitem action ''time'') (\<lambda>t.
       and_then (py_sub current_time t) (\<lambda>d. py_le d (JInt 30)))
     else Inr False)"

definition float_amount :: "float_impl \<Rightarrow> pydict \<Rightarrow> py_exn + pyfloat" where
  "float_amount fl action = and_then (getitem action ''amount'') (py_float fl)"

definition rule_123 :: "float_impl \<Rightarrow> pydict \<Rightarrow> pydict list \<Rightarrow> py_exn + bool" where
  "rule_123 fl data hist =
     and_then (getitem data ''time'') (\<lambda>current_time.
     and_then (filter_exn (is_recent_deposit current_time) hist) (\<lambda>recent_deposits.
     and_then (map_exn (float_amount fl) recent_deposits) (\<lambda>fs.
       Inr (float_less (Fin 200) (py_sum fl fs)))))"

text \<open>The rules run in the order of the source; the first exception ends the run.\<close>

definition evaluate_rules :: "float_impl \<Rightarrow> pydict \<Rightarrow> pydict list \<Rightarrow> py_exn + int list" where
  "evaluate_rules fl data hist =
     and_then (rule_1100 fl data) (\<lambda>r1.
     and_then (rule_30 hist) (\<lambda>r2.
     and_then (rule_300 hist) (\<lambda>r3.
     and_then (rule_123 fl data hist) (\<lambda>r4.
       Inr ((if r1 then [1100] else []) @ (if r2 then [30] else []) @
            (if r3 then [300] else []) @ (if r4 then [123] else []))))))"

text \<open>
  The handler returns the JSON body with status 200, the error body with status 400, or
  raises (Flask answers 500). The payload is appended before the rules run, so a run
  that raises in a rule leaves the payload stored.
\<close>

record alert_result =
  alert :: bool
  alert_codes :: "int list"
  user_id :: json

datatype outcome = Raised py_exn | BadRequest validation_error | Response alert_result

definition history_of :: "user_actions \<Rightarrow> int \<Rightarrow> pydict list" where
  "history_of ua k = (case ua k of None \<Rightarrow> [] | Some hist \<Rightarrow> hist)"

definition event :: "float_impl \<Rightarrow> user_actions \<Rightarrow> pydict \<Rightarrow> user_actions \<times> outcome" where
  "event fl ua data =
     (case validate_payload fl ua data of
        Inl e \<Rightarrow> (ua, Raised e)
      | Inr (Some err) \<Rightarrow> (ua, BadRequest err)
      | Inr None \<Rightarrow>
          (case getitem data ''user_id'' of
             Inl e \<Rightarrow> (ua, Raised e)
           | Inr uid \<Rightarrow>
               (case int_value uid of
                  None \<Rightarrow> (ua, Raised TypeError)
                | Some k \<Rightarrow>
                    let hist = history_of ua k @ [data];
                        ua' = ua(k \<mapsto> hist)
                    in (case evaluate_rules fl data hist of
                          Inl e \<Rightarrow> (ua', Raised e)
                        | Inr codes \<Rightarrow>
                            (ua', Response \<lparr>alert = codes \<noteq> [], alert_codes = codes,
                                            user_id = uid\<rparr>)))))"

section \<open>An implementation of the float operations, for evaluation\<close>

text \<open>
  Arithmetic without rounding on the plain decimal literals (an optional sign, digits,
  an optional point and digits). The theorems below hold for every \<open>float_impl\<close>; this one
  serves to run the model on payloads whose amounts are JSON numbers or such strings,
  where it agrees with the interpreter as long as the values are small enough to be exact
  in a double.
\<close>

definition digit_of :: "char \<Rightarrow> nat option" where
  "digit_of c = (if CHR ''0'' \<le> c \<and> c \<le> CHR ''9'' then Some (of_char c - 48) else None)"

fun digits_acc :: "nat \<Rightarrow> string \<Rightarrow> nat option" where
  "digits_acc n [] = Some n"
| "digits_acc n (c # cs) =
     (case digit_of c of None \<Rightarrow> None | Some d \<Rightarrow> digits_acc (10 * n + d) cs)"

definition unsigned_literal :: "string \<Rightarrow> rat option" where
  "unsigned_literal s =
     (let ip = takeWhile (\<lambda>c. c \<noteq> CHR ''.'') s;
          rest = dropWhile (\<lambda>c. c \<noteq> CHR ''.'') s;
          fp = tl rest
      in if ip = [] \<and> fp = [] then None
         else (case (digits_acc 0 ip, digits_acc 0 fp) of
                 (Some i, Some f) \<Rightarrow> Some (of_nat i + of_nat f / 10 ^ length fp)
               | _ \<Rightarrow> None))"

fun decimal_literal :: "string \<Rightarrow> pyfloat option" where
  "decimal_literal [] = None"
| "decimal_literal (c # cs) =
     (if c = CHR ''-'' then map_option (\<lambda>q. Fin (- q)) (unsigned_literal cs)
      else if c = CHR ''+'' then map_option Fin (unsigned_literal cs)
      else map_option Fin (unsigned_literal (c # cs)))"

fun exact_add :: "pyfloat \<Rightarrow> pyfloat \<Rightarrow> pyfloat" where
  "exact_add (Fin a) (Fin b) = Fin (a + b)"
| "exact_add NaN _ = NaN"
| "exact_add _ NaN = NaN"
| "exact_add PInf NInf = NaN"
| "exact_add NInf PInf = NaN"
| "exact_add PInf _ = PInf"
| "exact_add _ PInf = PInf"
| "exact_add NInf _ = NInf"
| "exact_add _ NInf = NInf"

definition exact_floats :: float_impl where
  "exact_floats =
     \<lparr>int_to_float = (\<lambda>n. Some (Fin (of_int n))),
      str_to_float = decimal_literal,
      float_add = exact_add\<rparr>"

section \<open>Runs of the handler\<close>

text \<open>
  The states the module can be in: \<^verbatim>\<open>user_actions = {}\<close> at start, and whatever a request
  leaves behind, whether it was answered or raised.
\<close>

inductive reachable :: "float_impl \<Rightarrow> user_actions \<Rightarrow> bool" for fl :: float_impl where
  reachable_init: "reachable fl Map.empty"
| reachable_event: "reachable fl ua \<Longrightarrow> reachable fl (fst (event fl ua data))"

text \<open>A sequence of requests, each handled in the state the previous one left.\<close>

fun submit_all :: "float_impl \<Rightarrow> user_actions \<Rightarrow> pydict list \<Rightarrow> user_actions \<times> outcome list" where
  "submit_all fl ua [] = (ua, [])"
| "submit_all fl ua (data # rest) =
     (case event fl ua data of
        (ua', out) \<Rightarrow> (case submit_all fl ua' rest of (ua'', outs) \<Rightarrow> (ua'', out # outs)))"

section \<open>The events of the specification\<close>

text \<open>
  The specification speaks of events with a kind, a numeric amount, a user and a time.
  \<open>event_view\<close> reads such an event off a payload: the kind from the two accepted strings,
  the amount as \<^verbatim>\<open>float\<close> converts it (when that is not negative), the user and the time as
  integers. It is defined on the payloads that the validation accepts
  (lemma \<open>validate_payload_accepts\<close>), and the properties below are stated on it.
\<close>

datatype kind = Deposit | Withdraw

record norm_event =
  ev_kind :: kind
  ev_amount :: pyfloat
  ev_user :: int
  ev_time :: int

definition kind_of :: "json \<Rightarrow> kind option" where
  "kind_of ty =
     (if ty = JStr ''deposit'' then Some Deposit
      else if ty = JStr ''withdraw'' then Some Withdraw else None)"

definition amount_of :: "float_impl \<Rightarrow> json \<Rightarrow> pyfloat option" where
  "amount_of fl a =
     (case py_float fl a of
        Inl e \<Rightarrow> None
      | Inr f \<Rightarrow> if float_less f (Fin 0) then None else Some f)"

definition event_view :: "float_impl \<Rightarrow> pydict \<Rightarrow> norm_event option" where
  "event_view fl d =
     (case Option.bind (map_of d ''type'') kind_of of
        None \<Rightarrow> None
      | Some k \<Rightarrow>
     (case Option.bind (map_of d ''amount'') (amount_of fl) of
        None \<Rightarrow> None
      | Some a \<Rightarrow>
     (case Option.bind (map_of d ''user_id'') int_value of
        None \<Rightarrow> None
      | Some u \<Rightarrow>
     (case Option.bind (map_of d ''time'') int_value of
        None \<Rightarrow> None
      | Some t \<Rightarrow> Some \<lparr>ev_kind = k, ev_amount = a, ev_user = u, ev_time = t\<rparr>))))"

definition history_view :: "float_impl \<Rightarrow> pydict list \<Rightarrow> norm_event list option" where
  "history_view fl hist = those (map (event_view fl) hist)"


text \<open>Every stored payload is one that the validation accepts.\<close>

definition stored_valid :: "float_impl \<Rightarrow> user_actions \<Rightarrow> bool" where
  "stored_valid fl ua = (\<forall>k hist. ua k = Some hist \<longrightarrow> history_view fl hist \<noteq> None)"

text \<open>The type of a stored payload and the key under which a payload is stored.\<close>

definition has_type :: "string \<Rightarrow> pydict \<Rightarrow> bool" where
  "has_type name action = (map_of action ''type'' = Some (JStr name))"

definition user_key :: "pydict \<Rightarrow> int option" where
  "user_key data = Option.bind (map_of data ''user_id'') int_value"

text \<open>
  The invariant of the histories: no stored list is empty, every stored time is an
  integer, and the times of a list increase strictly.
\<close>

definition time_of :: "pydict \<Rightarrow> int option" where
  "time_of d = Option.bind (map_of d ''time'') int_value"

definition increasing_times :: "pydict list \<Rightarrow> bool" where
  "increasing_times hist =
     (case those (map time_of hist) of None \<Rightarrow> False | Some ts \<Rightarrow> sorted_wrt (<) ts)"

definition history_inv :: "user_actions \<Rightarrow> bool" where
  "history_inv ua = (\<forall>k hist. ua k = Some hist \<longrightarrow> hist \<noteq> [] \<and> increasing_times hist)"

text \<open>A payload with the four required fields, for the examples.\<close>

definition payload :: "string \<Rightarrow> json \<Rightarrow> json \<Rightarrow> json \<Rightarrow> pydict" where
  "payload ty a u t = [(''type'', JStr ty), (''amount'', a), (''user_id'', u), (''time'', t)]"

section \<open>Computations that return\<close>

lemma and_then_Inr: "(and_then x f = Inr y) = (\<exists>v. x = Inr v \<and> f v = Inr y)"
  by (cases x) (simp_all add: and_then_def)

lemma getitem_Inr: "(getitem d k = Inr v) = (map_of d k = Some v)"
  by (simp add: getitem_def split: option.splits)

lemma is_type_Inr: "(is_type name a = Inr b) = (map_of a ''type'' \<noteq> None \<and> b = has_type name a)"
  by (auto simp: is_type_def has_type_def and_then_Inr getitem_Inr)

lemma filter_exn_Inr:
  "filter_exn p xs = Inr ys \<Longrightarrow> list_all (\<lambda>x. \<exists>b. p x = Inr b) xs \<and> ys = filter (\<lambda>x. p x = Inr True) xs"
  by (induction xs arbitrary: ys) (auto split: sum.splits if_splits)

lemma all_exn_Inr: "all_exn p xs = Inr b \<Longrightarrow> b = list_all (\<lambda>x. p x = Inr True) xs"
  by (induction xs) (auto split: sum.splits if_splits)


lemma event_Response:
  assumes "event fl ua data = (ua', Response r)"
  shows "\<exists>uid k codes. validate_payload fl ua data = Inr None \<and> map_of data ''user_id'' = Some uid \<and>
           int_value uid = Some k \<and> ua' = ua(k \<mapsto> history_of ua k @ [data]) \<and>
           evaluate_rules fl data (history_of ua k @ [data]) = Inr codes \<and>
           r = \<lparr>alert = codes \<noteq> [], alert_codes = codes, user_id = uid\<rparr>"
  using assms
  by (auto simp: event_def Let_def getitem_Inr split: sum.splits option.splits)

lemma evaluate_rules_Inr:
  assumes "evaluate_rules fl data hist = Inr codes"
  shows "\<exists>r1 r2 r3 r4. rule_1100 fl data = Inr r1 \<and> rule_30 hist = Inr r2 \<and> rule_300 hist = Inr r3 \<and>
           rule_123 fl data hist = Inr r4 \<and>
           codes = (if r1 then [1100] else []) @ (if r2 then [30] else []) @
                   (if r3 then [300] else []) @ (if r4 then [123] else [])"
  using assms unfolding evaluate_rules_def and_then_Inr by blast

lemma those_map_Some: "(those (map f xs) = Some ys) = (map f xs = map Some ys)"
proof (induction xs arbitrary: ys)
  case Nil
  then show ?case by auto
next
  case (Cons x xs)
  then show ?case by (cases "f x"; cases ys) (auto split: option.splits)
qed

lemma history_view_Some: "(history_view fl hist = Some evs) = (map (event_view fl) hist = map Some evs)"
  by (simp add: history_view_def those_map_Some)

lemma history_view_append:
  "history_view fl (xs @ [x]) =
     (case history_view fl xs of None \<Rightarrow> None
      | Some es \<Rightarrow> (case event_view fl x of None \<Rightarrow> None | Some e \<Rightarrow> Some (es @ [e])))"
proof (cases "history_view fl xs")
  case None
  have "history_view fl (xs @ [x]) = None"
  proof (rule ccontr)
    assume "history_view fl (xs @ [x]) \<noteq> None"
    then obtain evs where "map (event_view fl) (xs @ [x]) = map Some evs"
      by (auto simp: history_view_Some)
    then have "map (event_view fl) xs = map Some (butlast evs)"
      by (metis butlast_snoc map_butlast)
    with None show False by (simp add: history_view_Some [symmetric])
  qed
  with None show ?thesis by simp
next
  case (Some es)
  then have es: "map (event_view fl) xs = map Some es" by (simp add: history_view_Some)
  show ?thesis
  proof (cases "event_view fl x")
    case None
    have "history_view fl (xs @ [x]) = None"
    proof (rule ccontr)
      assume "history_view fl (xs @ [x]) \<noteq> None"
      then obtain evs where "map (event_view fl) (xs @ [x]) = map Some evs"
        by (auto simp: history_view_Some)
      then have "event_view fl x \<in> set (map Some evs)"
        by (metis in_set_conv_decomp list.simps(9) map_append)
      with None show False by auto
    qed
    with Some None show ?thesis by simp
  next
    case (Some e)
    with es have "map (event_view fl) (xs @ [x]) = map Some (es @ [e])" by simp
    then have "history_view fl (xs @ [x]) = Some (es @ [e])" by (simp only: history_view_Some)
    with \<open>history_view fl xs = Some es\<close> Some show ?thesis by simp
  qed
qed

lemma int_value_num_value: "int_value v = Some n \<Longrightarrow> num_value v = Some (Fin (of_int n))"
  by (cases v) auto

lemma py_le_int: "int_value a = Some x \<Longrightarrow> int_value b = Some y \<Longrightarrow> py_le a b = Inr (x \<le> y)"
  by (simp add: py_le_def int_value_num_value)

lemma py_sub_int: "int_value a = Some x \<Longrightarrow> int_value b = Some y \<Longrightarrow> py_sub a b = Inr (JInt (x - y))"
  by (simp add: py_sub_def)

lemma check_amount_None: "(check_amount fl a = Inr None) = (amount_of fl a \<noteq> None)"
  by (auto simp: check_amount_def amount_of_def split: sum.splits py_exn.splits)

lemma validate_payload_accepts:
  assumes "validate_payload fl ua data = Inr None"
  shows "\<exists>ev uid t. event_view fl data = Some ev \<and> map_of data ''user_id'' = Some uid \<and>
           int_value uid = Some (ev_user ev) \<and> map_of data ''time'' = Some t \<and>
           int_value t = Some (ev_time ev) \<and> check_sequential ua uid t = Inr None"
  using assms
  by (auto simp: validate_payload_def and_then_Inr getitem_Inr event_view_def kind_of_def
        isinstance_int_def check_amount_None
      split: option.splits if_splits)

lemma event_view_fields:
  assumes "event_view fl d = Some ev"
  shows "\<exists>ty a u t. map_of d ''type'' = Some ty \<and> kind_of ty = Some (ev_kind ev) \<and>
           map_of d ''amount'' = Some a \<and> py_float fl a = Inr (ev_amount ev) \<and>
           \<not> float_less (ev_amount ev) (Fin 0) \<and>
           map_of d ''user_id'' = Some u \<and> int_value u = Some (ev_user ev) \<and>
           map_of d ''time'' = Some t \<and> int_value t = Some (ev_time ev)"
  using assms
  by (auto simp: event_view_def amount_of_def split: option.splits sum.splits if_splits
      elim!: bind_eq_Some_conv [THEN iffD1, elim_format])

lemma has_type_view:
  assumes "event_view fl d = Some ev"
  shows "has_type ''deposit'' d = (ev_kind ev = Deposit)" "has_type ''withdraw'' d = (ev_kind ev = Withdraw)"
  using event_view_fields [OF assms]
  by (auto simp: has_type_def kind_of_def split: if_splits)

lemma rule_1100_view:
  assumes "event_view fl data = Some ev"
  shows "rule_1100 fl data = Inr (ev_kind ev = Withdraw \<and> float_less (Fin 100) (ev_amount ev))"
  using event_view_fields [OF assms]
  by (auto simp: rule_1100_def and_then_def getitem_def kind_of_def split: if_splits)

lemma rule_30_Inr:
  assumes "rule_30 hist = Inr b"
  shows "b = (3 \<le> length hist \<and> list_all (has_type ''withdraw'') (drop (length hist - 3) hist))"
proof (cases "3 \<le> length hist")
  case True
  with assms have "b = list_all (\<lambda>x. is_type ''withdraw'' x = Inr True) (drop (length hist - 3) hist)"
    by (simp add: rule_30_def all_exn_Inr)
  moreover have "(is_type ''withdraw'' x = Inr True) = has_type ''withdraw'' x" for x
    by (auto simp: is_type_Inr has_type_def)
  ultimately show ?thesis using True by simp
next
  case False
  with assms show ?thesis by (simp add: rule_30_def)
qed

lemma is_recent_deposit_view:
  assumes "event_view fl a = Some e" and "int_value cur = Some t"
  shows "is_recent_deposit cur a = Inr (ev_kind e = Deposit \<and> t - ev_time e \<le> 30)"
proof -
  from event_view_fields [OF assms(1)] obtain ty tm where
    f: "map_of a ''type'' = Some ty" "kind_of ty = Some (ev_kind e)"
       "map_of a ''time'' = Some tm" "int_value tm = Some (ev_time e)"
    by blast
  have le: "py_le (JInt (t - ev_time e)) (JInt 30) = Inr (t - ev_time e \<le> 30)"
    by (simp add: py_le_int)
  show ?thesis
    using f py_sub_int [OF assms(2) f(4)] le
    by (auto simp: is_recent_deposit_def and_then_def getitem_def kind_of_def split: if_splits)
qed

lemma float_amount_view:
  assumes "event_view fl a = Some e"
  shows "float_amount fl a = Inr (ev_amount e)"
  using event_view_fields [OF assms]
  by (auto simp: float_amount_def and_then_def getitem_def)




lemma codes_mem:
  "(1100 \<in> set ((if r1 then [1100] else []) @ (if r2 then [30] else []) @
            (if r3 then [300] else []) @ (if r4 then [123::int] else []))) = r1"
  "(30 \<in> set ((if r1 then [1100] else []) @ (if r2 then [30] else []) @
            (if r3 then [300] else []) @ (if r4 then [123::int] else []))) = r2"
  "(300 \<in> set ((if r1 then [1100] else []) @ (if r2 then [30] else []) @
            (if r3 then [300] else []) @ (if r4 then [123::int] else []))) = r3"
  "(123 \<in> set ((if r1 then [1100] else []) @ (if r2 then [30] else []) @
            (if r3 then [300] else []) @ (if r4 then [123::int] else []))) = r4"
  by auto

lemma event_Response_rules:
  assumes "event fl ua data = (ua', Response r)"
  obtains ev uid t r1 r2 r3 r4 where
    "event_view fl data = Some ev"
    "map_of data ''user_id'' = Some uid" "int_value uid = Some (ev_user ev)"
    "map_of data ''time'' = Some t" "int_value t = Some (ev_time ev)"
    "ua' = ua(ev_user ev \<mapsto> history_of ua (ev_user ev) @ [data])"
    "rule_1100 fl data = Inr r1"
    "rule_30 (history_of ua (ev_user ev) @ [data]) = Inr r2"
    "rule_300 (history_of ua (ev_user ev) @ [data]) = Inr r3"
    "rule_123 fl data (history_of ua (ev_user ev) @ [data]) = Inr r4"
    "alert_codes r = (if r1 then [1100] else []) @ (if r2 then [30] else []) @
                   (if r3 then [300] else []) @ (if r4 then [123] else [])"
    "alert r = (alert_codes r \<noteq> [])" "user_id r = uid"
proof -
  from event_Response [OF assms] obtain uid k codes where
    v: "validate_payload fl ua data = Inr None" and u: "map_of data ''user_id'' = Some uid"
    and k: "int_value uid = Some k" and ua': "ua' = ua(k \<mapsto> history_of ua k @ [data])"
    and c: "evaluate_rules fl data (history_of ua k @ [data]) = Inr codes"
    and r: "r = \<lparr>alert = codes \<noteq> [], alert_codes = codes, user_id = uid\<rparr>"
    by blast
  from validate_payload_accepts [OF v] u k obtain ev t where
    ev: "event_view fl data = Some ev" "k = ev_user ev" "map_of data ''time'' = Some t"
      "int_value t = Some (ev_time ev)"
    by auto
  from evaluate_rules_Inr [OF c] obtain r1 r2 r3 r4 where
    rr: "rule_1100 fl data = Inr r1" "rule_30 (history_of ua k @ [data]) = Inr r2"
    "rule_300 (history_of ua k @ [data]) = Inr r3" "rule_123 fl data (history_of ua k @ [data]) = Inr r4"
    "codes = (if r1 then [1100] else []) @ (if r2 then [30] else []) @
                   (if r3 then [300] else []) @ (if r4 then [123] else [])"
    by blast
  show thesis
  proof (rule that [of ev uid t r1 r2 r3 r4])
    show "event_view fl data = Some ev" by (rule ev(1))
    show "map_of data ''user_id'' = Some uid" by (rule u)
    show "int_value uid = Some (ev_user ev)" using k ev(2) by simp
    show "map_of data ''time'' = Some t" by (rule ev(3))
    show "int_value t = Some (ev_time ev)" by (rule ev(4))
    show "ua' = ua(ev_user ev \<mapsto> history_of ua (ev_user ev) @ [data])" using ua' ev(2) by simp
    show "rule_1100 fl data = Inr r1" by (rule rr(1))
    show "rule_30 (history_of ua (ev_user ev) @ [data]) = Inr r2" using rr(2) ev(2) by simp
    show "rule_300 (history_of ua (ev_user ev) @ [data]) = Inr r3" using rr(3) ev(2) by simp
    show "rule_123 fl data (history_of ua (ev_user ev) @ [data]) = Inr r4" using rr(4) ev(2) by simp
    show "alert_codes r = (if r1 then [1100] else []) @ (if r2 then [30] else []) @
                   (if r3 then [300] else []) @ (if r4 then [123] else [])"
      using r rr(5) by simp
    show "alert r = (alert_codes r \<noteq> [])" using r by simp
    show "user_id r = uid" using r by simp
  qed
qed


section \<open>Evaluation on concrete payloads\<close>

lemmas model_defs =
  event_def validate_payload_def check_amount_def check_sequential_def required_fields_def
  evaluate_rules_def rule_1100_def rule_30_def rule_300_def rule_123_def is_type_def
  is_recent_deposit_def float_amount_def history_of_def getitem_def and_then_def
  py_gt_def py_le_def py_sub_def py_sum_def isinstance_int_def payload_def

lemmas exact_defs = exact_floats_def digit_of_def unsigned_literal_def

lemmas view_defs =
  event_view_def history_view_def kind_of_def amount_of_def has_type_def user_key_def
  time_of_def

lemma large_withdrawal_run:
  "event exact_floats Map.empty (payload ''withdraw'' (JInt 150) (JInt 1) (JInt 5)) =
     (Map.empty(1 \<mapsto> [payload ''withdraw'' (JInt 150) (JInt 1) (JInt 5)]),
      Response \<lparr>alert = True, alert_codes = [1100], user_id = JInt 1\<rparr>)"
  by (simp add: model_defs exact_defs)

lemma third_withdrawal_run:
  "event exact_floats
     (Map.empty(1 \<mapsto> [payload ''withdraw'' (JInt 10) (JInt 1) (JInt 1),
                        payload ''withdraw'' (JInt 10) (JInt 1) (JInt 2)]))
     (payload ''withdraw'' (JInt 200) (JInt 1) (JInt 3)) =
     (Map.empty(1 \<mapsto> [payload ''withdraw'' (JInt 10) (JInt 1) (JInt 1),
                        payload ''withdraw'' (JInt 10) (JInt 1) (JInt 2),
                        payload ''withdraw'' (JInt 200) (JInt 1) (JInt 3)]),
      Response \<lparr>alert = True, alert_codes = [1100, 30], user_id = JInt 1\<rparr>)"
  by (simp add: model_defs exact_defs)

section \<open>The rules, one by one\<close>

text \<open>
  Claim C4. When the handler answers a payload with an alert result, the result holds
  code 1100 exactly when the payload is a withdrawal whose amount, as \<^verbatim>\<open>float\<close> converts
  it, is strictly greater than 100. The decision depends on the payload alone: in any
  other state in which the same payload is answered, code 1100 is present or absent alike.
\<close>

theorem rule_1100_current_event_only:
  assumes "event fl ua data = (ua', Response r)"
  shows "\<exists>ev. event_view fl data = Some ev \<and>
           ((1100 \<in> set (alert_codes r)) = (ev_kind ev = Withdraw \<and> float_less (Fin 100) (ev_amount ev))) \<and>
           (\<forall>ub ub' r'. event fl ub data = (ub', Response r') \<longrightarrow>
              (1100 \<in> set (alert_codes r')) = (1100 \<in> set (alert_codes r)))"
proof -
  have one: "\<exists>ev r1. event_view fl data = Some ev \<and> rule_1100 fl data = Inr r1 \<and>
       (1100 \<in> set (alert_codes s)) = r1"
    if "event fl ub data = (ub', Response s)" for ub ub' s
  proof -
    from that obtain ev uid t r1 r2 r3 r4 where
      f: "event_view fl data = Some ev"
        "map_of data ''user_id'' = Some uid" "int_value uid = Some (ev_user ev)"
        "map_of data ''time'' = Some t" "int_value t = Some (ev_time ev)"
        "ub' = ub(ev_user ev \<mapsto> history_of ub (ev_user ev) @ [data])"
        "rule_1100 fl data = Inr r1"
        "rule_30 (history_of ub (ev_user ev) @ [data]) = Inr r2"
        "rule_300 (history_of ub (ev_user ev) @ [data]) = Inr r3"
        "rule_123 fl data (history_of ub (ev_user ev) @ [data]) = Inr r4"
        "alert_codes s = (if r1 then [1100] else []) @ (if r2 then [30] else []) @
                   (if r3 then [300] else []) @ (if r4 then [123] else [])"
        "alert s = (alert_codes s \<noteq> [])" "user_id s = uid"
      by (rule event_Response_rules)
    have "(1100 \<in> set (alert_codes s)) = r1" by (simp only: f(11) codes_mem)
    with f(1,7) show ?thesis by blast
  qed
  from one [OF assms] obtain ev r1 where
    ev: "event_view fl data = Some ev" "rule_1100 fl data = Inr r1" "(1100 \<in> set (alert_codes r)) = r1"
    by blast
  have "(1100 \<in> set (alert_codes r')) = (1100 \<in> set (alert_codes r))"
    if "event fl ub data = (ub', Response r')" for ub ub' r'
    using one [OF that] ev by auto
  with ev rule_1100_view [OF ev(1)] show ?thesis by auto
qed

theorem rule_1100_current_event_only_witness:
  "event exact_floats Map.empty (payload ''withdraw'' (JInt 150) (JInt 1) (JInt 5)) =
     (Map.empty(1 \<mapsto> [payload ''withdraw'' (JInt 150) (JInt 1) (JInt 5)]),
      Response \<lparr>alert = True, alert_codes = [1100], user_id = JInt 1\<rparr>) \<and>
   (\<exists>ev. event_view exact_floats (payload ''withdraw'' (JInt 150) (JInt 1) (JInt 5)) = Some ev \<and>
         ev_kind ev = Withdraw \<and> float_less (Fin 100) (ev_amount ev))"
  using rule_1100_current_event_only [OF large_withdrawal_run] large_withdrawal_run
  by auto

text \<open>
  Claim C3. When the handler answers a payload with an alert result, the result holds
  code 30 exactly when the user's list, with the payload appended, has at least three
  entries and its last three entries are withdrawals. Nothing before the last three
  entries matters.
\<close>

theorem rule_30_trailing_three:
  assumes "event fl ua data = (ua', Response r)"
  shows "\<exists>k hist. user_key data = Some k \<and> hist = history_of ua k @ [data] \<and> ua' k = Some hist \<and>
           ((30 \<in> set (alert_codes r)) =
            (3 \<le> length hist \<and> list_all (has_type ''withdraw'') (drop (length hist - 3) hist)))"
proof -
  from assms obtain ev uid t r1 r2 r3 r4 where
    f: "event_view fl data = Some ev"
      "map_of data ''user_id'' = Some uid" "int_value uid = Some (ev_user ev)"
      "map_of data ''time'' = Some t" "int_value t = Some (ev_time ev)"
      "ua' = ua(ev_user ev \<mapsto> history_of ua (ev_user ev) @ [data])"
      "rule_1100 fl data = Inr r1"
      "rule_30 (history_of ua (ev_user ev) @ [data]) = Inr r2"
      "rule_300 (history_of ua (ev_user ev) @ [data]) = Inr r3"
      "rule_123 fl data (history_of ua (ev_user ev) @ [data]) = Inr r4"
      "alert_codes r = (if r1 then [1100] else []) @ (if r2 then [30] else []) @
                   (if r3 then [300] else []) @ (if r4 then [123] else [])"
      "alert r = (alert_codes r \<noteq> [])" "user_id r = uid"
    by (rule event_Response_rules)
  have "user_key data = Some (ev_user ev)" using f(2,3) by (simp add: user_key_def)
  moreover have "ua' (ev_user ev) = Some (history_of ua (ev_user ev) @ [data])" using f(6) by simp
  moreover have "(30 \<in> set (alert_codes r)) = r2" by (simp only: f(11) codes_mem)
  ultimately show ?thesis using rule_30_Inr [OF f(8)] by blast
qed

theorem rule_30_trailing_three_witness:
  "event exact_floats
     (Map.empty(1 \<mapsto> [payload ''withdraw'' (JInt 10) (JInt 1) (JInt 1),
                        payload ''withdraw'' (JInt 10) (JInt 1) (JInt 2)]))
     (payload ''withdraw'' (JInt 200) (JInt 1) (JInt 3)) =
     (Map.empty(1 \<mapsto> [payload ''withdraw'' (JInt 10) (JInt 1) (JInt 1),
                        payload ''withdraw'' (JInt 10) (JInt 1) (JInt 2),
                        payload ''withdraw'' (JInt 200) (JInt 1) (JInt 3)]),
      Response \<lparr>alert = True, alert_codes = [1100, 30], user_id = JInt 1\<rparr>) \<and>
   list_all (has_type ''withdraw'')
     [payload ''withdraw'' (JInt 10) (JInt 1) (JInt 1),
      payload ''withdraw'' (JInt 10) (JInt 1) (JInt 2),
      payload ''withdraw'' (JInt 200) (JInt 1) (JInt 3)]"
proof -
  from rule_30_trailing_three [OF third_withdrawal_run] obtain k hist where
    k: "user_key (payload ''withdraw'' (JInt 200) (JInt 1) (JInt 3)) = Some k"
    and hist: "hist = history_of
        (Map.empty(1 \<mapsto> [payload ''withdraw'' (JInt 10) (JInt 1) (JInt 1),
                           payload ''withdraw'' (JInt 10) (JInt 1) (JInt 2)])) k @
        [payload ''withdraw'' (JInt 200) (JInt 1) (JInt 3)]"
    and iff: "(30 \<in> set (alert_codes \<lparr>alert = True, alert_codes = [1100, 30], user_id = JInt 1\<rparr>)) =
        (3 \<le> length hist \<and> list_all (has_type ''withdraw'') (drop (length hist - 3) hist))"
    by blast
  from k have "k = 1" by (simp add: user_key_def payload_def)
  with hist have "hist = [payload ''withdraw'' (JInt 10) (JInt 1) (JInt 1),
      payload ''withdraw'' (JInt 10) (JInt 1) (JInt 2),
      payload ''withdraw'' (JInt 200) (JInt 1) (JInt 3)]"
    by (simp add: history_of_def)
  with iff have "list_all (has_type ''withdraw'')
     [payload ''withdraw'' (JInt 10) (JInt 1) (JInt 1),
      payload ''withdraw'' (JInt 10) (JInt 1) (JInt 2),
      payload ''withdraw'' (JInt 200) (JInt 1) (JInt 3)]"
    by simp
  with third_withdrawal_run show ?thesis by blast
qed

text \<open>
  Claim C10. In an alert result, \<open>alert\<close> is true exactly when \<open>alert_codes\<close> is not empty,
  and \<open>user_id\<close> is the value of the payload's \<^verbatim>\<open>user_id\<close> field.
\<close>

theorem alert_flag_and_user_id:
  assumes "event fl ua data = (ua', Response r)"
  shows "alert r = (alert_codes r \<noteq> []) \<and> map_of data ''user_id'' = Some (user_id r)"
proof -
  from assms obtain ev uid t r1 r2 r3 r4 where
    f: "event_view fl data = Some ev"
      "map_of data ''user_id'' = Some uid" "int_value uid = Some (ev_user ev)"
      "map_of data ''time'' = Some t" "int_value t = Some (ev_time ev)"
      "ua' = ua(ev_user ev \<mapsto> history_of ua (ev_user ev) @ [data])"
      "rule_1100 fl data = Inr r1"
      "rule_30 (history_of ua (ev_user ev) @ [data]) = Inr r2"
      "rule_300 (history_of ua (ev_user ev) @ [data]) = Inr r3"
      "rule_123 fl data (history_of ua (ev_user ev) @ [data]) = Inr r4"
      "alert_codes r = (if r1 then [1100] else []) @ (if r2 then [30] else []) @
                   (if r3 then [300] else []) @ (if r4 then [123] else [])"
      "alert r = (alert_codes r \<noteq> [])" "user_id r = uid"
    by (rule event_Response_rules)
  from f(2,12,13) show ?thesis by simp
qed

theorem alert_flag_and_user_id_witness:
  "event exact_floats Map.empty (payload ''withdraw'' (JInt 150) (JInt 1) (JInt 5)) =
     (Map.empty(1 \<mapsto> [payload ''withdraw'' (JInt 150) (JInt 1) (JInt 5)]),
      Response \<lparr>alert = True, alert_codes = [1100], user_id = JInt 1\<rparr>) \<and>
   map_of (payload ''withdraw'' (JInt 150) (JInt 1) (JInt 5)) ''user_id'' = Some (JInt 1)"
  using alert_flag_and_user_id [OF large_withdrawal_run] large_withdrawal_run
  by simp

section \<open>What a request leaves behind\<close>

lemma event_state:
  "fst (event fl ua data) = ua \<or>
   (\<exists>k. validate_payload fl ua data = Inr None \<and> user_key data = Some k \<and>
        fst (event fl ua data) = ua(k \<mapsto> history_of ua k @ [data]))"
  by (auto simp: event_def Let_def user_key_def getitem_def
      split: sum.splits option.splits)

lemma event_rejected:
  assumes "validate_payload fl ua data = Inr (Some err)"
  shows "event fl ua data = (ua, BadRequest err)"
  using assms by (simp add: event_def)

lemma submit_all_rejected:
  assumes "validate_payload fl ua data = Inr (Some err)"
  shows "submit_all fl ua (replicate n data) = (ua, replicate n (BadRequest err))"
  by (induction n) (simp_all add: event_rejected [OF assms])

lemma time_of_view: "event_view fl d = Some ev \<Longrightarrow> time_of d = Some (ev_time ev)"
  by (drule event_view_fields) (auto simp: time_of_def)

lemma user_key_view: "event_view fl d = Some ev \<Longrightarrow> user_key d = Some (ev_user ev)"
  by (drule event_view_fields) (auto simp: user_key_def)

lemma check_sequential_accepts:
  assumes "check_sequential ua uid t = Inr None" and "int_value uid = Some k"
    and "int_value t = Some tm" and "ua k = Some hist" and "time_of (last hist) = Some s"
  shows "s < tm"
proof -
  from assms(5) obtain lt where lt: "map_of (last hist) ''time'' = Some lt" "int_value lt = Some s"
    by (auto simp: time_of_def bind_eq_Some_conv)
  from assms(1,2,4) lt(1) have "hist \<noteq> []" and "py_le t lt = Inr False"
    by (auto simp: check_sequential_def and_then_Inr getitem_Inr split: if_splits)
  with py_le_int [OF assms(3) lt(2)] show ?thesis by simp
qed

lemma strictly_sorted_le_last:
  assumes "sorted_wrt (<) (ts :: int list)" and "x \<in> set ts"
  shows "x \<le> last ts"
  using assms
proof (induction ts)
  case Nil
  then show ?case by simp
next
  case (Cons a ts)
  then show ?case by (cases ts) (auto simp: less_imp_le)
qed

lemma increasing_times_snoc:
  assumes "increasing_times hist" and "time_of d = Some t"
    and "hist = [] \<or> (\<exists>s. time_of (last hist) = Some s \<and> s < t)"
  shows "increasing_times (hist @ [d])"
proof -
  from assms(1) obtain ts where ts: "map time_of hist = map Some ts" "sorted_wrt (<) ts"
    by (auto simp: increasing_times_def those_map_Some split: option.splits)
  have "map time_of (hist @ [d]) = map Some (ts @ [t])" using ts(1) assms(2) by simp
  then have view: "those (map time_of (hist @ [d])) = Some (ts @ [t])"
    by (simp only: those_map_Some)
  have "x < t" if "x \<in> set ts" for x
  proof -
    from that ts(1) have ne: "hist \<noteq> []" "ts \<noteq> []" by auto
    with assms(3) obtain s where s: "time_of (last hist) = Some s" "s < t" by blast
    have "last (map time_of hist) = last (map Some ts)" by (simp only: ts(1))
    with ne s(1) have "last ts = s" by (simp add: last_map)
    with strictly_sorted_le_last [OF ts(2) that] s(2) show ?thesis by simp
  qed
  with ts(2) have "sorted_wrt (<) (ts @ [t])" by (simp add: sorted_wrt_append)
  with view show ?thesis by (simp add: increasing_times_def)
qed

lemma increasing_times_last:
  assumes "increasing_times hist" and "hist \<noteq> []"
  shows "\<exists>s. time_of (last hist) = Some s"
proof -
  from assms(1) obtain ts where ts: "map time_of hist = map Some ts"
    by (auto simp: increasing_times_def those_map_Some split: option.splits)
  then have "last (map time_of hist) = last (map Some ts)" by (simp only:)
  moreover from ts assms(2) have "ts \<noteq> []" by auto
  ultimately show ?thesis using assms(2) by (simp add: last_map)
qed

lemma event_preserves_history_inv:
  assumes "history_inv ua"
  shows "history_inv (fst (event fl ua data))"
proof -
  from event_state [of fl ua data] show ?thesis
  proof
    assume "fst (event fl ua data) = ua"
    with assms show ?thesis by simp
  next
    assume "\<exists>k. validate_payload fl ua data = Inr None \<and> user_key data = Some k \<and>
        fst (event fl ua data) = ua(k \<mapsto> history_of ua k @ [data])"
    then obtain k where v: "validate_payload fl ua data = Inr None"
      and k: "user_key data = Some k"
      and st: "fst (event fl ua data) = ua(k \<mapsto> history_of ua k @ [data])"
      by blast
    from validate_payload_accepts [OF v] obtain ev uid t where
      ev: "event_view fl data = Some ev" "map_of data ''user_id'' = Some uid"
        "int_value uid = Some (ev_user ev)" "map_of data ''time'' = Some t"
        "int_value t = Some (ev_time ev)" "check_sequential ua uid t = Inr None"
      by blast
    from k ev(2,3) have uk: "int_value uid = Some k" by (simp add: user_key_def)
    have tm: "time_of data = Some (ev_time ev)" by (rule time_of_view [OF ev(1)])
    have new: "increasing_times (history_of ua k @ [data])"
    proof (cases "ua k")
      case None
      then show ?thesis using tm
        by (simp add: history_of_def increasing_times_def)
    next
      case (Some hist)
      with assms have h: "hist \<noteq> []" "increasing_times hist" by (auto simp: history_inv_def)
      from increasing_times_last [OF h(2,1)] obtain s where s: "time_of (last hist) = Some s" ..
      from check_sequential_accepts [OF ev(6) uk ev(5) Some s] have "s < ev_time ev" .
      with s increasing_times_snoc [OF h(2) tm] Some show ?thesis
        by (auto simp: history_of_def)
    qed
    show ?thesis
      unfolding history_inv_def st
    proof (intro allI impI)
      fix j hist
      assume "(ua(k \<mapsto> history_of ua k @ [data])) j = Some hist"
      then show "hist \<noteq> [] \<and> increasing_times hist"
        using new assms by (cases "j = k") (auto simp: history_inv_def)
    qed
  qed
qed

lemma event_preserves_stored_valid:
  assumes "stored_valid fl ua"
  shows "stored_valid fl (fst (event fl ua data))"
proof -
  from event_state [of fl ua data] show ?thesis
  proof
    assume "fst (event fl ua data) = ua"
    with assms show ?thesis by simp
  next
    assume "\<exists>k. validate_payload fl ua data = Inr None \<and> user_key data = Some k \<and>
        fst (event fl ua data) = ua(k \<mapsto> history_of ua k @ [data])"
    then obtain k where v: "validate_payload fl ua data = Inr None"
      and st: "fst (event fl ua data) = ua(k \<mapsto> history_of ua k @ [data])"
      by blast
    from validate_payload_accepts [OF v] obtain ev where ev: "event_view fl data = Some ev"
      by blast
    have old: "history_view fl (history_of ua k) \<noteq> None"
      using assms by (cases "ua k") (auto simp: history_of_def stored_valid_def history_view_def)
    have new: "history_view fl (history_of ua k @ [data]) \<noteq> None"
      using old ev by (auto simp: history_view_append)
    show ?thesis
      unfolding stored_valid_def st
    proof (intro allI impI)
      fix j hist
      assume "(ua(k \<mapsto> history_of ua k @ [data])) j = Some hist"
      then show "history_view fl hist \<noteq> None"
        using new assms by (cases "j = k") (auto simp: stored_valid_def)
    qed
  qed
qed

lemma reachable_stored_valid: "reachable fl ua \<Longrightarrow> stored_valid fl ua"
proof (induction rule: reachable.induct)
  case reachable_init
  show ?case by (simp add: stored_valid_def)
next
  case (reachable_event ua data)
  then show ?case by (simp add: event_preserves_stored_valid)
qed

lemma reachable_history_inv: "reachable fl ua \<Longrightarrow> history_inv ua"
proof (induction rule: reachable.induct)
  case reachable_init
  show ?case by (simp add: history_inv_def)
next
  case (reachable_event ua data)
  then show ?case by (simp add: event_preserves_history_inv)
qed

section \<open>The histories\<close>

lemma two_deposits_state:
  "fst (event exact_floats
          (fst (event exact_floats Map.empty (payload ''deposit'' (JInt 100) (JInt 1) (JInt 0))))
          (payload ''deposit'' (JInt 150) (JInt 1) (JInt 10))) =
     Map.empty(1 \<mapsto> [payload ''deposit'' (JInt 100) (JInt 1) (JInt 0),
                       payload ''deposit'' (JInt 150) (JInt 1) (JInt 10)])"
  by (simp add: model_defs exact_defs)

text \<open>
  Claim C7. In every state that a sequence of requests can reach, each user id in the dict
  has a non-empty list whose stored times are integers that increase strictly from one
  entry to the next; and a request, whatever its outcome, takes a state with this property
  to a state with this property.
\<close>

theorem history_invariant:
  "(reachable fl ua \<longrightarrow> history_inv ua) \<and>
   (history_inv ua \<longrightarrow> history_inv (fst (event fl ua data)))"
  by (simp add: reachable_history_inv event_preserves_history_inv)

lemma third_deposit_state:
  "fst (event exact_floats
          (Map.empty(1 \<mapsto> [payload ''deposit'' (JInt 100) (JInt 1) (JInt 0),
                            payload ''deposit'' (JInt 150) (JInt 1) (JInt 10)]))
          (payload ''deposit'' (JInt 20) (JInt 1) (JInt 50))) =
     Map.empty(1 \<mapsto> [payload ''deposit'' (JInt 100) (JInt 1) (JInt 0),
                       payload ''deposit'' (JInt 150) (JInt 1) (JInt 10),
                       payload ''deposit'' (JInt 20) (JInt 1) (JInt 50)])"
  by (simp add: model_defs exact_defs)

theorem history_invariant_witness:
  "reachable exact_floats
     (Map.empty(1 \<mapsto> [payload ''deposit'' (JInt 100) (JInt 1) (JInt 0),
                        payload ''deposit'' (JInt 150) (JInt 1) (JInt 10)])) \<and>
   history_inv
     (Map.empty(1 \<mapsto> [payload ''deposit'' (JInt 100) (JInt 1) (JInt 0),
                        payload ''deposit'' (JInt 150) (JInt 1) (JInt 10)])) \<and>
   increasing_times [payload ''deposit'' (JInt 100) (JInt 1) (JInt 0),
                     payload ''deposit'' (JInt 150) (JInt 1) (JInt 10)] \<and>
   history_inv
     (Map.empty(1 \<mapsto> [payload ''deposit'' (JInt 100) (JInt 1) (JInt 0),
                        payload ''deposit'' (JInt 150) (JInt 1) (JInt 10),
                        payload ''deposit'' (JInt 20) (JInt 1) (JInt 50)]))"
proof -
  have "reachable exact_floats
     (fst (event exact_floats
          (fst (event exact_floats Map.empty (payload ''deposit'' (JInt 100) (JInt 1) (JInt 0))))
          (payload ''deposit'' (JInt 150) (JInt 1) (JInt 10))))"
    by (intro reachable_event reachable_init)
  then have r: "reachable exact_floats
     (Map.empty(1 \<mapsto> [payload ''deposit'' (JInt 100) (JInt 1) (JInt 0),
                        payload ''deposit'' (JInt 150) (JInt 1) (JInt 10)]))"
    by (simp only: two_deposits_state)
  note inv = history_invariant [of exact_floats
      "Map.empty(1 \<mapsto> [payload ''deposit'' (JInt 100) (JInt 1) (JInt 0),
                         payload ''deposit'' (JInt 150) (JInt 1) (JInt 10)])"
      "payload ''deposit'' (JInt 20) (JInt 1) (JInt 50)"]
  from r inv have i: "history_inv
     (Map.empty(1 \<mapsto> [payload ''deposit'' (JInt 100) (JInt 1) (JInt 0),
                        payload ''deposit'' (JInt 150) (JInt 1) (JInt 10)]))"
    by blast
  then have t: "increasing_times [payload ''deposit'' (JInt 100) (JInt 1) (JInt 0),
                     payload ''deposit'' (JInt 150) (JInt 1) (JInt 10)]"
    by (simp add: history_inv_def)
  from i inv have "history_inv
     (fst (event exact_floats
          (Map.empty(1 \<mapsto> [payload ''deposit'' (JInt 100) (JInt 1) (JInt 0),
                            payload ''deposit'' (JInt 150) (JInt 1) (JInt 10)]))
          (payload ''deposit'' (JInt 20) (JInt 1) (JInt 50))))"
    by blast
  then have "history_inv
     (Map.empty(1 \<mapsto> [payload ''deposit'' (JInt 100) (JInt 1) (JInt 0),
                        payload ''deposit'' (JInt 150) (JInt 1) (JInt 10),
                        payload ''deposit'' (JInt 20) (JInt 1) (JInt 50)]))"
    by (simp only: third_deposit_state)
  with r i t show ?thesis by blast
qed

text \<open>
  Claim C6. When the validation rejects a payload, the handler answers with that error
  and leaves the dict of histories as it was: nothing is appended for any user and no
  list is created. Submitting the same payload again, any number of times, gives the
  same answer and the same dict each time.
\<close>

theorem rejected_payload_leaves_state:
  assumes "validate_payload fl ua data = Inr (Some err)"
  shows "event fl ua data = (ua, BadRequest err) \<and>
         submit_all fl ua (replicate n data) = (ua, replicate n (BadRequest err))"
  using event_rejected [OF assms] submit_all_rejected [OF assms] by simp

lemma negative_amount_rejected:
  "validate_payload exact_floats
     (Map.empty(1 \<mapsto> [payload ''deposit'' (JInt 100) (JInt 1) (JInt 0)]))
     (payload ''deposit'' (JStr ''-5'') (JInt 2) (JInt 7)) = Inr (Some NegativeAmount)"
  by (simp add: model_defs exact_defs)

theorem rejected_payload_leaves_state_witness:
  "validate_payload exact_floats
     (Map.empty(1 \<mapsto> [payload ''deposit'' (JInt 100) (JInt 1) (JInt 0)]))
     (payload ''deposit'' (JStr ''-5'') (JInt 2) (JInt 7)) = Inr (Some NegativeAmount) \<and>
   submit_all exact_floats
     (Map.empty(1 \<mapsto> [payload ''deposit'' (JInt 100) (JInt 1) (JInt 0)]))
     [payload ''deposit'' (JStr ''-5'') (JInt 2) (JInt 7),
      payload ''deposit'' (JStr ''-5'') (JInt 2) (JInt 7),
      payload ''deposit'' (JStr ''-5'') (JInt 2) (JInt 7)] =
     (Map.empty(1 \<mapsto> [payload ''deposit'' (JInt 100) (JInt 1) (JInt 0)]),
      [BadRequest NegativeAmount, BadRequest NegativeAmount, BadRequest NegativeAmount])"
  using rejected_payload_leaves_state [OF negative_amount_rejected, of "Suc (Suc (Suc 0))"]
    negative_amount_rejected
  by simp

section \<open>The deposit window and the order of the codes\<close>



lemma far_deposit_run:
  "event exact_floats
     (Map.empty(1 \<mapsto> [payload ''deposit'' (JInt 100) (JInt 1) (JInt 0)]))
     (payload ''deposit'' (JInt 150) (JInt 1) (JInt 40)) =
     (Map.empty(1 \<mapsto> [payload ''deposit'' (JInt 100) (JInt 1) (JInt 0),
                        payload ''deposit'' (JInt 150) (JInt 1) (JInt 40)]),
      Response \<lparr>alert = False, alert_codes = [], user_id = JInt 1\<rparr>)"
  by (simp add: model_defs exact_defs)




lemma subseq_codes:
  "subseq ((if r1 then [1100] else []) @ (if r2 then [30] else []) @
           (if r3 then [300] else []) @ (if r4 then [123::int] else []))
          [1100, 30, 300, 123]"
  by (cases r1; cases r2; cases r3; cases r4) simp_all

text \<open>
  Claim C5. When the handler answers a payload with an alert result, each of the four
  rules has been evaluated, and \<open>alert_codes\<close> lists the codes of the rules that hold, each
  decided by its own rule, in the order 1100, 30, 300, 123: it is a subsequence of that
  list. In particular, for a withdrawal of an amount greater than 100 whose two
  predecessors in the user's list are withdrawals, \<open>alert_codes\<close> starts with 1100 and 30.
\<close>

theorem alert_codes_order:
  assumes "event fl ua data = (ua', Response r)"
  shows "\<exists>k r1 r2 r3 r4.
           user_key data = Some k \<and>
           rule_1100 fl data = Inr r1 \<and>
           rule_30 (history_of ua k @ [data]) = Inr r2 \<and>
           rule_300 (history_of ua k @ [data]) = Inr r3 \<and>
           rule_123 fl data (history_of ua k @ [data]) = Inr r4 \<and>
           alert_codes r = (if r1 then [1100] else []) @ (if r2 then [30] else []) @
                           (if r3 then [300] else []) @ (if r4 then [123] else []) \<and>
           subseq (alert_codes r) [1100, 30, 300, 123] \<and>
           ((\<exists>ev. event_view fl data = Some ev \<and> ev_kind ev = Withdraw \<and>
                  float_less (Fin 100) (ev_amount ev)) \<and>
            2 \<le> length (history_of ua k) \<and>
            list_all (has_type ''withdraw'')
              (drop (length (history_of ua k) - 2) (history_of ua k)) \<longrightarrow>
            (\<exists>rest. alert_codes r = 1100 # 30 # rest))"
proof -
  from assms obtain ev uid t r1 r2 r3 r4 where
    f: "event_view fl data = Some ev"
      "map_of data ''user_id'' = Some uid" "int_value uid = Some (ev_user ev)"
      "map_of data ''time'' = Some t" "int_value t = Some (ev_time ev)"
      "ua' = ua(ev_user ev \<mapsto> history_of ua (ev_user ev) @ [data])"
      "rule_1100 fl data = Inr r1"
      "rule_30 (history_of ua (ev_user ev) @ [data]) = Inr r2"
      "rule_300 (history_of ua (ev_user ev) @ [data]) = Inr r3"
      "rule_123 fl data (history_of ua (ev_user ev) @ [data]) = Inr r4"
      "alert_codes r = (if r1 then [1100] else []) @ (if r2 then [30] else []) @
                   (if r3 then [300] else []) @ (if r4 then [123] else [])"
      "alert r = (alert_codes r \<noteq> [])" "user_id r = uid"
    by (rule event_Response_rules)
  let ?old = "history_of ua (ev_user ev)"
  have key: "user_key data = Some (ev_user ev)" by (rule user_key_view [OF f(1)])
  have sub: "subseq (alert_codes r) [1100, 30, 300, 123]"
    by (simp only: f(11) subseq_codes)
  have comb: "(\<exists>e. event_view fl data = Some e \<and> ev_kind e = Withdraw \<and>
                  float_less (Fin 100) (ev_amount e)) \<and>
            2 \<le> length ?old \<and>
            list_all (has_type ''withdraw'') (drop (length ?old - 2) ?old) \<longrightarrow>
            (\<exists>rest. alert_codes r = 1100 # 30 # rest)"
  proof
    assume a: "(\<exists>e. event_view fl data = Some e \<and> ev_kind e = Withdraw \<and>
                  float_less (Fin 100) (ev_amount e)) \<and>
            2 \<le> length ?old \<and>
            list_all (has_type ''withdraw'') (drop (length ?old - 2) ?old)"
    with f(1) have w: "ev_kind ev = Withdraw" "float_less (Fin 100) (ev_amount ev)" by auto
    with rule_1100_view [OF f(1)] f(7) have r1: "r1" by simp
    from w(1) have "has_type ''withdraw'' data" by (simp add: has_type_view [OF f(1)])
    moreover from a have "drop (length (?old @ [data]) - 3) (?old @ [data]) =
        drop (length ?old - 2) ?old @ [data]"
      by simp
    ultimately have "3 \<le> length (?old @ [data]) \<and>
        list_all (has_type ''withdraw'') (drop (length (?old @ [data]) - 3) (?old @ [data]))"
      using a by simp
    with rule_30_Inr [OF f(8)] have r2: "r2" by simp
    from r1 r2 f(11) show "\<exists>rest. alert_codes r = 1100 # 30 # rest" by simp
  qed
  show ?thesis
    by (intro exI [of _ "ev_user ev"] exI [of _ r1] exI [of _ r2] exI [of _ r3] exI [of _ r4]
        conjI key f(7,8,9,10,11) sub comb)
qed

lemma large_withdrawal_view:
  "event_view exact_floats (payload ''withdraw'' (JInt 200) (JInt 1) (JInt 3)) =
     Some \<lparr>ev_kind = Withdraw, ev_amount = Fin 200, ev_user = 1, ev_time = 3\<rparr>"
  by (simp add: view_defs payload_def exact_defs)

theorem alert_codes_order_witness:
  "event exact_floats
     (Map.empty(1 \<mapsto> [payload ''withdraw'' (JInt 10) (JInt 1) (JInt 1),
                        payload ''withdraw'' (JInt 10) (JInt 1) (JInt 2)]))
     (payload ''withdraw'' (JInt 200) (JInt 1) (JInt 3)) =
     (Map.empty(1 \<mapsto> [payload ''withdraw'' (JInt 10) (JInt 1) (JInt 1),
                        payload ''withdraw'' (JInt 10) (JInt 1) (JInt 2),
                        payload ''withdraw'' (JInt 200) (JInt 1) (JInt 3)]),
      Response \<lparr>alert = True, alert_codes = [1100, 30], user_id = JInt 1\<rparr>) \<and>
   list_all (has_type ''withdraw'')
     [payload ''withdraw'' (JInt 10) (JInt 1) (JInt 1),
      payload ''withdraw'' (JInt 10) (JInt 1) (JInt 2)] \<and>
   subseq [1100, 30] [1100, 30, 300, 123 :: int] \<and>
   rule_300 [payload ''withdraw'' (JInt 10) (JInt 1) (JInt 1),
             payload ''withdraw'' (JInt 10) (JInt 1) (JInt 2),
             payload ''withdraw'' (JInt 200) (JInt 1) (JInt 3)] = Inr False \<and>
   (\<exists>rest. [1100, 30] = 1100 # 30 # (rest :: int list))"
proof -
  let ?old = "[payload ''withdraw'' (JInt 10) (JInt 1) (JInt 1),
               payload ''withdraw'' (JInt 10) (JInt 1) (JInt 2)]"
  from alert_codes_order [OF third_withdrawal_run] obtain k r1 r2 r3 r4 where
    k: "user_key (payload ''withdraw'' (JInt 200) (JInt 1) (JInt 3)) = Some k"
    and r3: "rule_300 (history_of (Map.empty(1 \<mapsto> ?old)) k @
        [payload ''withdraw'' (JInt 200) (JInt 1) (JInt 3)]) = Inr r3"
    and codes: "alert_codes \<lparr>alert = True, alert_codes = [1100, 30], user_id = JInt 1\<rparr> =
        (if r1 then [1100] else []) @ (if r2 then [30] else []) @
        (if r3 then [300] else []) @ (if r4 then [123] else [])"
    and sub: "subseq (alert_codes \<lparr>alert = True, alert_codes = [1100, 30], user_id = JInt 1\<rparr>)
        [1100, 30, 300, 123]"
    and comb: "(\<exists>ev. event_view exact_floats (payload ''withdraw'' (JInt 200) (JInt 1) (JInt 3)) = Some ev \<and>
            ev_kind ev = Withdraw \<and> float_less (Fin 100) (ev_amount ev)) \<and>
        2 \<le> length (history_of (Map.empty(1 \<mapsto> ?old)) k) \<and>
        list_all (has_type ''withdraw'')
          (drop (length (history_of (Map.empty(1 \<mapsto> ?old)) k) - 2)
             (history_of (Map.empty(1 \<mapsto> ?old)) k)) \<longrightarrow>
        (\<exists>rest. alert_codes \<lparr>alert = True, alert_codes = [1100, 30], user_id = JInt 1\<rparr> =
           1100 # 30 # rest)"
    by blast
  from k have k1: "k = 1" by (simp add: user_key_def payload_def)
  have old: "list_all (has_type ''withdraw'') ?old" by (simp add: has_type_def payload_def)
  from codes have "\<not> r3" by (cases r1; cases r2; cases r3; cases r4) simp_all
  with k1 r3 have no300: "rule_300 [payload ''withdraw'' (JInt 10) (JInt 1) (JInt 1),
             payload ''withdraw'' (JInt 10) (JInt 1) (JInt 2),
             payload ''withdraw'' (JInt 200) (JInt 1) (JInt 3)] = Inr False"
    by (simp add: history_of_def)
  from sub have s: "subseq [1100, 30] [1100, 30, 300, 123 :: int]" by simp
  have "\<exists>ev. event_view exact_floats (payload ''withdraw'' (JInt 200) (JInt 1) (JInt 3)) = Some ev \<and>
            ev_kind ev = Withdraw \<and> float_less (Fin 100) (ev_amount ev)"
    by (simp add: large_withdrawal_view)
  with comb k1 old have "\<exists>rest. alert_codes \<lparr>alert = True, alert_codes = [1100, 30], user_id = JInt 1\<rparr> =
           1100 # 30 # rest"
    by (simp add: history_of_def)
  then have "\<exists>rest. [1100, 30] = 1100 # 30 # (rest :: int list)" by simp
  with third_withdrawal_run old s no300 show ?thesis by blast
qed

section \<open>Where the handler departs from its description\<close>

subsection \<open>The order of the checks\<close>

text \<open>
  The six checks of \<^verbatim>\<open>validate_payload\<close>, each under the condition that the checks before
  it have passed. The amount check answers \<open>InvalidAmount\<close> when \<^verbatim>\<open>float\<close> raises ValueError
  and \<open>NegativeAmount\<close> when the value is below zero; when \<^verbatim>\<open>float\<close> raises another
  exception, that exception leaves \<^verbatim>\<open>validate_payload\<close>.
\<close>

lemma validate_payload_missing_field:
  assumes "find (\<lambda>field. map_of data field = None) [''type'', ''amount'', ''user_id'', ''time''] = Some field"
  shows "validate_payload fl ua data = Inr (Some (MissingField field))"
  using assms by (simp add: validate_payload_def required_fields_def)

lemma validate_payload_present:
  assumes "map_of data ''type'' = Some ty" and "map_of data ''amount'' = Some a"
    and "map_of data ''user_id'' = Some uid" and "map_of data ''time'' = Some t"
  shows "validate_payload fl ua data =
     (if ty \<noteq> JStr ''deposit'' \<and> ty \<noteq> JStr ''withdraw'' then Inr (Some InvalidKind)
      else case py_float fl a of
        Inl ValueError \<Rightarrow> Inr (Some InvalidAmount)
      | Inl e \<Rightarrow> Inl e
      | Inr amount \<Rightarrow>
          if float_less amount (Fin 0) then Inr (Some NegativeAmount)
          else if \<not> isinstance_int uid then Inr (Some InvalidUserId)
          else if \<not> isinstance_int t then Inr (Some InvalidTime)
          else check_sequential ua uid t)"
  using assms
  by (simp add: validate_payload_def required_fields_def getitem_def and_then_def
      check_amount_def split: sum.splits py_exn.splits)

lemma check_sequential_rejects:
  assumes "int_value uid = Some k" and "int_value t = Some tm" and "ua k = Some hist"
    and "hist \<noteq> []" and "time_of (last hist) = Some s" and "tm \<le> s"
  shows "check_sequential ua uid t = Inr (Some NonSequentialTime)"
proof -
  from assms(5) obtain lt where lt: "map_of (last hist) ''time'' = Some lt" "int_value lt = Some s"
    by (auto simp: time_of_def bind_eq_Some_conv)
  from py_le_int [OF assms(2) lt(2)] assms(6) have "py_le t lt = Inr True" by simp
  with assms(1,3,4) lt(1) show ?thesis
    by (simp add: check_sequential_def getitem_def and_then_def)
qed

lemma check_sequential_first_event:
  assumes "int_value uid = Some k" and "ua k = None"
  shows "check_sequential ua uid t = Inr None"
  using assms by (simp add: check_sequential_def)

text \<open>
  Claim C8. The checks run in the stated order and the first failure is returned
  (lemmas \<open>validate_payload_missing_field\<close>, \<open>validate_payload_present\<close> and
  \<open>check_sequential_rejects\<close>). But an amount that is no number at all does not yield the
  error of the amount check: for the JSON value null (and likewise a list or an object)
  \<^verbatim>\<open>float\<close> raises TypeError, which the \<^verbatim>\<open>except ValueError\<close> clause does not catch, so
  \<^verbatim>\<open>validate_payload\<close> raises instead of returning. This holds in every state and for every
  implementation of the float operations.
\<close>

theorem validate_payload_null_amount_raises:
  "validate_payload fl ua (payload ''deposit'' JNull (JInt 1) (JInt 1)) = Inl TypeError"
  by (simp add: validate_payload_def required_fields_def getitem_def and_then_def
      check_amount_def payload_def)

subsection \<open>Requests that raise\<close>

lemma validate_payload_overflow:
  assumes "int_to_float fl n = None"
  shows "validate_payload fl ua (payload ''deposit'' (JInt n) (JInt 1) (JInt 1)) = Inl OverflowError"
  using assms
  by (simp add: validate_payload_def required_fields_def getitem_def and_then_def
      check_amount_def payload_def)

lemma validate_payload_accepts_nan:
  assumes "py_float fl a = Inr NaN"
  shows "validate_payload fl Map.empty (payload ''deposit'' a (JInt 1) (JInt 1)) = Inr None"
  using assms
  by (simp add: validate_payload_def required_fields_def getitem_def and_then_def
      check_amount_def check_sequential_def isinstance_int_def payload_def)

text \<open>
  Claim C9. Two runs end in an exception that is none of the six validation errors. A
  payload whose amount is null makes the validation raise TypeError, in every state. And
  after deposits with the amounts 10 and "20", a third deposit with the amount 30 is
  accepted and stored, and then rule 300 compares the int 30 with the str "20" and raises
  TypeError. The withdrawal of 1 that follows raises as well, since the last three
  deposits of the list are the same.
\<close>

theorem requests_that_raise:
  "event fl ua (payload ''deposit'' JNull (JInt 1) (JInt 1)) = (ua, Raised TypeError) \<and>
   submit_all exact_floats Map.empty
     [payload ''deposit'' (JInt 10) (JInt 1) (JInt 1),
      payload ''deposit'' (JStr ''20'') (JInt 1) (JInt 2),
      payload ''deposit'' (JInt 30) (JInt 1) (JInt 3),
      payload ''withdraw'' (JInt 1) (JInt 1) (JInt 4)] =
     (Map.empty(1 \<mapsto>
        [payload ''deposit'' (JInt 10) (JInt 1) (JInt 1),
         payload ''deposit'' (JStr ''20'') (JInt 1) (JInt 2),
         payload ''deposit'' (JInt 30) (JInt 1) (JInt 3),
         payload ''withdraw'' (JInt 1) (JInt 1) (JInt 4)]),
      [Response \<lparr>alert = False, alert_codes = [], user_id = JInt 1\<rparr>,
       Response \<lparr>alert = False, alert_codes = [], user_id = JInt 1\<rparr>,
       Raised TypeError,
       Raised TypeError])"
proof
  show "event fl ua (payload ''deposit'' JNull (JInt 1) (JInt 1)) = (ua, Raised TypeError)"
    by (simp add: event_def validate_payload_def required_fields_def getitem_def and_then_def
        check_amount_def payload_def)
  show "submit_all exact_floats Map.empty
     [payload ''deposit'' (JInt 10) (JInt 1) (JInt 1),
      payload ''deposit'' (JStr ''20'') (JInt 1) (JInt 2),
      payload ''deposit'' (JInt 30) (JInt 1) (JInt 3),
      payload ''withdraw'' (JInt 1) (JInt 1) (JInt 4)] =
     (Map.empty(1 \<mapsto>
        [payload ''deposit'' (JInt 10) (JInt 1) (JInt 1),
         payload ''deposit'' (JStr ''20'') (JInt 1) (JInt 2),
         payload ''deposit'' (JInt 30) (JInt 1) (JInt 3),
         payload ''withdraw'' (JInt 1) (JInt 1) (JInt 4)]),
      [Response \<lparr>alert = False, alert_codes = [], user_id = JInt 1\<rparr>,
       Response \<lparr>alert = False, alert_codes = [], user_id = JInt 1\<rparr>,
       Raised TypeError,
       Raised TypeError])"
    by (simp add: model_defs exact_defs)
qed

subsection \<open>Rule 300 on amounts given as strings\<close>

text \<open>
  What rule 300 computes: with \<open>ds\<close> the deposits of the list, it holds exactly when there
  are three or more and \<^verbatim>\<open>>\<close> holds between the stored amounts of the last and the one
  before, and of that one and the third from the end.
\<close>

lemma rule_300_Inr:
  assumes "rule_300 hist = Inr b"
  shows "b = (let ds = filter (has_type ''deposit'') hist; n = length ds in
              3 \<le> n \<and>
              (\<exists>a1 a2 a3. map_of (ds ! (n - 1)) ''amount'' = Some a1 \<and>
                 map_of (ds ! (n - 2)) ''amount'' = Some a2 \<and>
                 map_of (ds ! (n - 3)) ''amount'' = Some a3 \<and>
                 py_gt a1 a2 = Inr True \<and> py_gt a2 a3 = Inr True))"
proof -
  from assms obtain ds where ds: "filter_exn (is_type ''deposit'') hist = Inr ds"
    and rest: "(let n = length ds in
     if 3 \<le> n then
       and_then (getitem (ds ! (n - 1)) ''amount'') (\<lambda>a1.
       and_then (getitem (ds ! (n - 2)) ''amount'') (\<lambda>a2.
       and_then (py_gt a1 a2) (\<lambda>c.
         if c then and_then (getitem (ds ! (n - 3)) ''amount'') (\<lambda>a3. py_gt a2 a3)
         else Inr False)))
     else Inr False) = Inr b"
    by (auto simp: rule_300_def and_then_Inr)
  have "(is_type ''deposit'' x = Inr True) = has_type ''deposit'' x" for x
    by (auto simp: is_type_Inr has_type_def)
  with filter_exn_Inr [OF ds] have eq: "ds = filter (has_type ''deposit'') hist" by simp
  from rest have "b = (3 \<le> length ds \<and>
              (\<exists>a1 a2 a3. map_of (ds ! (length ds - 1)) ''amount'' = Some a1 \<and>
                 map_of (ds ! (length ds - 2)) ''amount'' = Some a2 \<and>
                 map_of (ds ! (length ds - 3)) ''amount'' = Some a3 \<and>
                 py_gt a1 a2 = Inr True \<and> py_gt a2 a3 = Inr True))"
    by (auto simp: Let_def and_then_Inr getitem_Inr split: if_splits)
  with eq show ?thesis by (simp add: Let_def)
qed

text \<open>On two numbers \<^verbatim>\<open>>\<close> compares the values; on two strings it compares the texts.\<close>

lemma py_gt_numbers:
  assumes "num_value a = Some x" and "num_value b = Some y"
  shows "py_gt a b = Inr (float_less y x)"
  using assms by (simp add: py_gt_def)

lemma py_gt_strings: "py_gt (JStr s) (JStr t) = Inr (t < s)"
  by (simp add: py_gt_def)

lemma py_gt_mixed:
  assumes "num_value a = Some x"
  shows "py_gt a (JStr t) = Inl TypeError" "py_gt (JStr t) a = Inl TypeError"
  using assms by (cases a; simp add: py_gt_def)+

lemma rule_300_numbers:
  assumes "rule_300 hist = Inr b" and "ds = filter (has_type ''deposit'') hist"
    and "3 \<le> length ds"
    and "map_of (ds ! (length ds - 1)) ''amount'' = Some a1" and "num_value a1 = Some x1"
    and "map_of (ds ! (length ds - 2)) ''amount'' = Some a2" and "num_value a2 = Some x2"
    and "map_of (ds ! (length ds - 3)) ''amount'' = Some a3" and "num_value a3 = Some x3"
  shows "b = (float_less x2 x1 \<and> float_less x3 x2)"
  using rule_300_Inr [OF assms(1)] assms(2-)
  by (simp add: Let_def py_gt_numbers)

text \<open>
  Claim C1. Rule 300 compares the stored amounts as they are, not their numeric values.
  Three deposits with the amounts "10", "5" and "9", which the validation accepts as the
  numbers 10, 5 and 9, are answered with code 300, since "9" > "5" > "10" as strings,
  although 9 > 5 > 10 does not hold. And three deposits with the amounts "5", "10" and
  "20", which do increase as numbers, are answered without code 300. On amounts that are
  JSON numbers the rule does compare the values (lemma \<open>rule_300_numbers\<close>).
\<close>

theorem rule_300_compares_strings:
  "submit_all exact_floats Map.empty
     [payload ''deposit'' (JStr ''10'') (JInt 1) (JInt 1),
      payload ''deposit'' (JStr ''5'') (JInt 1) (JInt 2),
      payload ''deposit'' (JStr ''9'') (JInt 1) (JInt 3)] =
     (Map.empty(1 \<mapsto>
        [payload ''deposit'' (JStr ''10'') (JInt 1) (JInt 1),
         payload ''deposit'' (JStr ''5'') (JInt 1) (JInt 2),
         payload ''deposit'' (JStr ''9'') (JInt 1) (JInt 3)]),
      [Response \<lparr>alert = False, alert_codes = [], user_id = JInt 1\<rparr>,
       Response \<lparr>alert = False, alert_codes = [], user_id = JInt 1\<rparr>,
       Response \<lparr>alert = True, alert_codes = [300], user_id = JInt 1\<rparr>]) \<and>
   map_option (map ev_amount) (history_view exact_floats
     [payload ''deposit'' (JStr ''10'') (JInt 1) (JInt 1),
      payload ''deposit'' (JStr ''5'') (JInt 1) (JInt 2),
      payload ''deposit'' (JStr ''9'') (JInt 1) (JInt 3)]) = Some [Fin 10, Fin 5, Fin 9] \<and>
   submit_all exact_floats Map.empty
     [payload ''deposit'' (JStr ''5'') (JInt 1) (JInt 1),
      payload ''deposit'' (JStr ''10'') (JInt 1) (JInt 2),
      payload ''deposit'' (JStr ''20'') (JInt 1) (JInt 3)] =
     (Map.empty(1 \<mapsto>
        [payload ''deposit'' (JStr ''5'') (JInt 1) (JInt 1),
         payload ''deposit'' (JStr ''10'') (JInt 1) (JInt 2),
         payload ''deposit'' (JStr ''20'') (JInt 1) (JInt 3)]),
      [Response \<lparr>alert = False, alert_codes = [], user_id = JInt 1\<rparr>,
       Response \<lparr>alert = False, alert_codes = [], user_id = JInt 1\<rparr>,
       Response \<lparr>alert = False, alert_codes = [], user_id = JInt 1\<rparr>])"
  by (simp add: model_defs exact_defs view_defs)

subsection \<open>The only ways to raise\<close>

text \<open>
  In a reachable state the two runs of claim C9 show the only ways in which a request
  raises: \<^verbatim>\<open>float\<close> raises TypeError or OverflowError in the validation, or the payload is
  accepted and stored and a comparison of rule 300 raises TypeError.
\<close>

lemma py_float_exn:
  assumes "py_float fl a = Inl e"
  shows "e = TypeError \<or> e = OverflowError \<or> e = ValueError"
  using assms by (cases a) (auto split: option.splits)

lemma py_gt_exn: "py_gt a b = Inl e \<Longrightarrow> e = TypeError"
  by (auto simp: py_gt_def split: option.splits json.splits)

lemma check_sequential_returns:
  assumes "history_inv ua" and "int_value uid = Some k" and "int_value t = Some tm"
  shows "\<exists>r. check_sequential ua uid t = Inr r"
proof (cases "ua k")
  case None
  with assms(2) show ?thesis by (simp add: check_sequential_def)
next
  case (Some hist)
  with assms(1) have h: "hist \<noteq> []" "increasing_times hist" by (auto simp: history_inv_def)
  from increasing_times_last [OF h(2,1)] obtain s where "time_of (last hist) = Some s" ..
  then obtain lt where lt: "map_of (last hist) ''time'' = Some lt" "int_value lt = Some s"
    by (auto simp: time_of_def bind_eq_Some_conv)
  with assms(2) Some h(1) py_le_int [OF assms(3) lt(2)] show ?thesis
    by (simp add: check_sequential_def getitem_def and_then_def)
qed

lemma validate_payload_raises:
  assumes "history_inv ua" and "validate_payload fl ua data = Inl e"
  shows "\<exists>a. map_of data ''amount'' = Some a \<and> py_float fl a = Inl e \<and>
             (e = TypeError \<or> e = OverflowError)"
proof -
  from assms(2) have none: "find (\<lambda>field. map_of data field = None) required_fields = None"
    by (auto simp: validate_payload_def split: option.splits)
  then obtain ty a uid t where
    f: "map_of data ''type'' = Some ty" "map_of data ''amount'' = Some a"
       "map_of data ''user_id'' = Some uid" "map_of data ''time'' = Some t"
    by (auto simp: required_fields_def split: if_splits)
  note v = validate_payload_present [OF f, of fl ua]
  show ?thesis
  proof (cases "py_float fl a")
    case (Inl x)
    with v assms(2) have "x = e" "e \<noteq> ValueError"
      by (auto split: if_splits py_exn.splits)
    with Inl py_float_exn [OF Inl] f(2) show ?thesis by auto
  next
    case (Inr amount)
    with v assms(2) have c: "check_sequential ua uid t = Inl e" "isinstance_int uid" "isinstance_int t"
      by (auto split: if_splits)
    then obtain k tm where "int_value uid = Some k" "int_value t = Some tm"
      by (auto simp: isinstance_int_def)
    from check_sequential_returns [OF assms(1) this] c(1) show ?thesis by auto
  qed
qed

lemma filter_exn_returns:
  assumes "\<And>x. x \<in> set xs \<Longrightarrow> \<exists>b. p x = Inr b"
  shows "\<exists>ys. filter_exn p xs = Inr ys"
  using assms by (induction xs) (fastforce split: sum.splits)+

lemma all_exn_returns:
  assumes "\<And>x. x \<in> set xs \<Longrightarrow> \<exists>b. p x = Inr b"
  shows "\<exists>b. all_exn p xs = Inr b"
  using assms by (induction xs) (fastforce split: sum.splits)+

lemma map_exn_returns:
  assumes "\<And>x. x \<in> set xs \<Longrightarrow> \<exists>y. f x = Inr y"
  shows "\<exists>ys. map_exn f xs = Inr ys"
  using assms by (induction xs) (fastforce split: sum.splits)+

lemma history_view_member:
  assumes "history_view fl hist = Some evs" and "x \<in> set hist"
  shows "\<exists>e. event_view fl x = Some e"
proof -
  from assms(1) have "map (event_view fl) hist = map Some evs" by (simp add: history_view_Some)
  moreover from assms(2) have "event_view fl x \<in> set (map (event_view fl) hist)" by simp
  ultimately have "event_view fl x \<in> set (map Some evs)" by simp
  then show ?thesis by auto
qed

lemma is_type_view: "event_view fl x = Some e \<Longrightarrow> \<exists>b. is_type name x = Inr b"
  by (drule event_view_fields) (auto simp: is_type_def getitem_def and_then_def)

lemma rule_30_returns:
  assumes "history_view fl hist = Some evs"
  shows "\<exists>b. rule_30 hist = Inr b"
proof (cases "3 \<le> length hist")
  case True
  have "\<exists>b. is_type ''withdraw'' x = Inr b" if "x \<in> set (drop (length hist - 3) hist)" for x
    using history_view_member [OF assms in_set_dropD [OF that]] is_type_view by blast
  from all_exn_returns [of _ "is_type ''withdraw''", OF this] True show ?thesis
    by (simp add: rule_30_def)
next
  case False
  then show ?thesis by (auto simp: rule_30_def)
qed

lemma rule_123_returns:
  assumes "history_view fl hist = Some evs" and "map_of data ''time'' = Some cur"
    and "int_value cur = Some t"
  shows "\<exists>b. rule_123 fl data hist = Inr b"
proof -
  have "\<exists>b. is_recent_deposit cur x = Inr b" if "x \<in> set hist" for x
    using history_view_member [OF assms(1) that] is_recent_deposit_view [OF _ assms(3)] by blast
  from filter_exn_returns [of hist "is_recent_deposit cur", OF this]
  obtain recent where rec: "filter_exn (is_recent_deposit cur) hist = Inr recent" by blast
  from filter_exn_Inr [OF rec] have "set recent \<subseteq> set hist" by auto
  then have "\<exists>y. float_amount fl x = Inr y" if "x \<in> set recent" for x
    using that history_view_member [OF assms(1)] float_amount_view by blast
  from map_exn_returns [of recent "float_amount fl", OF this]
  obtain fs where "map_exn (float_amount fl) recent = Inr fs" by blast
  with rec assms(2) show ?thesis
    by (simp add: rule_123_def getitem_def and_then_def)
qed

lemma rule_300_returns_or_TypeError:
  assumes "history_view fl hist = Some evs"
  shows "(\<exists>b. rule_300 hist = Inr b) \<or> rule_300 hist = Inl TypeError"
proof -
  have "\<exists>b. is_type ''deposit'' x = Inr b" if "x \<in> set hist" for x
    using history_view_member [OF assms that] is_type_view by blast
  from filter_exn_returns [of hist "is_type ''deposit''", OF this]
  obtain ds where ds: "filter_exn (is_type ''deposit'') hist = Inr ds" by blast
  from filter_exn_Inr [OF ds] have sub: "set ds \<subseteq> set hist" by auto
  have amt: "\<exists>a. getitem (ds ! i) ''amount'' = Inr a" if "i < length ds" for i
  proof -
    from that sub have "ds ! i \<in> set hist" by (auto simp: subset_iff)
    from history_view_member [OF assms this] obtain e where "event_view fl (ds ! i) = Some e" ..
    from event_view_fields [OF this] show ?thesis by (auto simp: getitem_def)
  qed
  show ?thesis
  proof (cases "3 \<le> length ds")
    case False
    with ds show ?thesis by (auto simp: rule_300_def and_then_def)
  next
    case True
    then have "length ds - 1 < length ds" "length ds - 2 < length ds" "length ds - 3 < length ds"
      by simp_all
    from this [THEN amt] obtain a1 a2 a3 where
      a: "getitem (ds ! (length ds - 1)) ''amount'' = Inr a1"
         "getitem (ds ! (length ds - 2)) ''amount'' = Inr a2"
         "getitem (ds ! (length ds - 3)) ''amount'' = Inr a3"
      by blast
    have r: "rule_300 hist =
        and_then (py_gt a1 a2) (\<lambda>c. if c then py_gt a2 a3 else Inr False)"
      using ds True a by (simp add: rule_300_def and_then_def Let_def split: sum.splits)
    show ?thesis
    proof (cases "py_gt a1 a2")
      case (Inl e)
      with py_gt_exn [OF Inl] r show ?thesis by (simp add: and_then_def)
    next
      case c: (Inr c)
      show ?thesis
      proof (cases "py_gt a2 a3")
        case (Inl e)
        with py_gt_exn [OF Inl] r c show ?thesis by (auto simp: and_then_def)
      next
        case (Inr d)
        with r c show ?thesis by (auto simp: and_then_def)
      qed
    qed
  qed
qed

lemma accepted_payload_outcome:
  assumes "stored_valid fl ua" and "validate_payload fl ua data = Inr None"
  shows "\<exists>k. user_key data = Some k \<and>
           fst (event fl ua data) = ua(k \<mapsto> history_of ua k @ [data]) \<and>
           ((\<exists>r. snd (event fl ua data) = Response r) \<or>
            (snd (event fl ua data) = Raised TypeError \<and>
             rule_300 (history_of ua k @ [data]) = Inl TypeError))"
proof -
  from validate_payload_accepts [OF assms(2)] obtain ev uid t where
    ev: "event_view fl data = Some ev" "map_of data ''user_id'' = Some uid"
      "int_value uid = Some (ev_user ev)" "map_of data ''time'' = Some t"
      "int_value t = Some (ev_time ev)"
    by blast
  let ?k = "ev_user ev"
  let ?hist = "history_of ua ?k @ [data]"
  have "history_view fl (history_of ua ?k) \<noteq> None"
    using assms(1)
    by (cases "ua ?k") (auto simp: history_of_def stored_valid_def history_view_def)
  with ev(1) obtain evs where hv: "history_view fl ?hist = Some evs"
    by (auto simp: history_view_append)
  from rule_1100_view [OF ev(1)] obtain r1 where r1: "rule_1100 fl data = Inr r1" by blast
  from rule_30_returns [OF hv] obtain r2 where r2: "rule_30 ?hist = Inr r2" by blast
  from rule_123_returns [OF hv ev(4,5)] obtain r4 where r4: "rule_123 fl data ?hist = Inr r4"
    by blast
  have key: "user_key data = Some ?k" by (rule user_key_view [OF ev(1)])
  from rule_300_returns_or_TypeError [OF hv] show ?thesis
  proof
    assume "\<exists>b. rule_300 ?hist = Inr b"
    then obtain r3 where "rule_300 ?hist = Inr r3" ..
    with r1 r2 r4 assms(2) ev(2,3) key show ?thesis
      by (simp add: event_def getitem_def evaluate_rules_def and_then_def Let_def)
  next
    assume "rule_300 ?hist = Inl TypeError"
    with r1 r2 assms(2) ev(2,3) key show ?thesis
      by (simp add: event_def getitem_def evaluate_rules_def and_then_def Let_def)
  qed
qed

end
